theory Spec2Isabelle
  imports Complex_Main "HOL-Library.Sublist"
begin

section \<open>The sliding-window rate limiter (backend/app/rate\_limiter.py)\<close>

text \<open>
  Timestamps are the readings of \<^verbatim>\<open>time.time()\<close>: seconds as a Python float,
  read here as a real number. Every operation that reads the clock takes the reading
  as its argument \<open>now\<close>.

  \<^verbatim>\<open>self.requests\<close> is a \<^verbatim>\<open>defaultdict(deque)\<close>: a dictionary from
  client identifiers to their request timestamps, oldest first. Reading a key that is
  absent stores an empty deque under it and returns that deque.
\<close>

record SimpleRateLimiter =
  requests_per_minute :: int
  requests :: "string \<rightharpoonup> real list"

definition SimpleRateLimiter_init :: "int \<Rightarrow> SimpleRateLimiter" where
  "SimpleRateLimiter_init rpm = \<lparr>requests_per_minute = rpm, requests = Map.empty\<rparr>"

text \<open>The module's global instance, \<^verbatim>\<open>rate_limiter = SimpleRateLimiter()\<close>.\<close>

definition rate_limiter :: SimpleRateLimiter where
  "rate_limiter = SimpleRateLimiter_init 100"

text \<open>\<^verbatim>\<open>self.requests[identifier]\<close>: the deque read, an empty one for a new key.\<close>

definition getitem :: "(string \<rightharpoonup> real list) \<Rightarrow> string \<Rightarrow> real list" where
  "getitem d identifier = (case d identifier of None \<Rightarrow> [] | Some q \<Rightarrow> q)"

text \<open>
  The loop
  \<^verbatim>\<open>while client_requests and client_requests[0] < minute_ago: client_requests.popleft()\<close>
  as a recursion on the deque.
\<close>

fun clean_old :: "real \<Rightarrow> real list \<Rightarrow> real list" where
  "clean_old minute_ago [] = []"
| "clean_old minute_ago (t # ts) =
     (if t < minute_ago then clean_old minute_ago ts else t # ts)"

text \<open>
  The store after the first half of \<^verbatim>\<open>is_allowed\<close> (the lookup and the loop under
  the comment \<^verbatim>\<open># Clean old requests\<close>): the deque is mutated in place, so the
  dictionary holds the pruned deque, under a key that now exists.
\<close>

definition clean_old_requests :: "SimpleRateLimiter \<Rightarrow> string \<Rightarrow> real \<Rightarrow> SimpleRateLimiter" where
  "clean_old_requests s identifier now =
     (let minute_ago = now - 60;
          client_requests = clean_old minute_ago (getitem (requests s) identifier)
      in s\<lparr>requests := (requests s)(identifier \<mapsto> client_requests)\<rparr>)"

text \<open>
  \<^verbatim>\<open>is_allowed\<close> returns the pair \<open>(is_allowed, remaining_requests)\<close>; the
  model returns the updated limiter beside it.
\<close>

definition is_allowed ::
  "SimpleRateLimiter \<Rightarrow> string \<Rightarrow> real \<Rightarrow> (bool \<times> int) \<times> SimpleRateLimiter" where
  "is_allowed s identifier now =
     (let s1 = clean_old_requests s identifier now;
          client_requests = getitem (requests s1) identifier
      in if int (length client_requests) < requests_per_minute s1
         then (let client_requests' = client_requests @ [now];
                   remaining = requests_per_minute s1 - int (length client_requests')
               in ((True, remaining),
                   s1\<lparr>requests := (requests s1)(identifier \<mapsto> client_requests')\<rparr>))
         else ((False, 0), s1))"

text \<open>
  Python's \<^verbatim>\<open>int(x)\<close> on a float truncates towards zero.
\<close>

definition py_int :: "real \<Rightarrow> int" where
  "py_int x = (if 0 \<le> x then \<lfloor>x\<rfloor> else \<lceil>x\<rceil>)"

text \<open>
  \<^verbatim>\<open>get_reset_time\<close> reads \<^verbatim>\<open>self.requests[identifier]\<close> too, so it also
  stores an empty deque for a client it has not seen.
\<close>

definition get_reset_time :: "SimpleRateLimiter \<Rightarrow> string \<Rightarrow> real \<Rightarrow> int \<times> SimpleRateLimiter" where
  "get_reset_time s identifier now =
     (let client_requests = getitem (requests s) identifier;
          s1 = s\<lparr>requests := (requests s)(identifier \<mapsto> client_requests)\<rparr>
      in case client_requests of
           [] \<Rightarrow> (py_int now, s1)
         | oldest # _ \<Rightarrow> (py_int (oldest + 60), s1))"

subsection \<open>Sequences of calls\<close>

text \<open>
  A client of the limiter calls its two methods in some order, each call with its own
  clock reading. \<open>run\<close> threads the limiter through such a sequence, and
  \<open>is_allowed_seq\<close> collects the decisions of one client calling \<^verbatim>\<open>is_allowed\<close>
  at the given clock readings.
\<close>

datatype call = IsAllowed string real | GetResetTime string real

fun call_time :: "call \<Rightarrow> real" where
  "call_time (IsAllowed identifier now) = now"
| "call_time (GetResetTime identifier now) = now"

fun step :: "SimpleRateLimiter \<Rightarrow> call \<Rightarrow> SimpleRateLimiter" where
  "step s (IsAllowed identifier now) = snd (is_allowed s identifier now)"
| "step s (GetResetTime identifier now) = snd (get_reset_time s identifier now)"

definition run :: "SimpleRateLimiter \<Rightarrow> call list \<Rightarrow> SimpleRateLimiter" where
  "run s cs = foldl step s cs"

fun is_allowed_seq ::
  "SimpleRateLimiter \<Rightarrow> string \<Rightarrow> real list \<Rightarrow> (bool \<times> int) list \<times> SimpleRateLimiter" where
  "is_allowed_seq s identifier [] = ([], s)"
| "is_allowed_seq s identifier (now # later) =
     (let (r, s1) = is_allowed s identifier now;
          (rs, s2) = is_allowed_seq s1 identifier later
      in (r # rs, s2))"

section \<open>The token bucket\<close>

text \<open>
  The spec describes a \<^verbatim>\<open>TokenBucket\<close> primitive and the tests construct one
  (\<^verbatim>\<open>TokenBucket(capacity=10, refill_rate=1.0)\<close>), but the module under
  \<^verbatim>\<open>backend/app/rate_limiter.py\<close> defines no such class. The definitions of this
  section follow the spec's sentences; times and token counts are reals, and the clock
  reading is the argument \<open>now\<close>.
\<close>

text \<open>
  Modelled from the spec: the class \<^verbatim>\<open>TokenBucket\<close>, missing from the source. "capacity
  (max tokens), tokens (current float \<open>\<ge>\<close> 0, \<open>\<le>\<close> capacity), refill\_rate (tokens/second),
  last\_refill (timestamp)".
\<close>

record TokenBucket =
  capacity :: real
  tokens :: real
  refill_rate :: real
  last_refill :: real

text \<open>
  Modelled from the spec: the constructor of \<^verbatim>\<open>TokenBucket\<close>, missing from the source.
  The spec's scenario "TokenBucket(capacity=10, refill\_rate=2.0); after consume(10)
  succeeds, tokens=0" and the test \<^verbatim>\<open>assert bucket.tokens == 10\<close> after creation make
  a fresh bucket full; it is created at the clock reading \<open>now\<close>.
\<close>

definition TokenBucket_init :: "real \<Rightarrow> real \<Rightarrow> real \<Rightarrow> TokenBucket" where
  "TokenBucket_init cap rate now =
     \<lparr>capacity = cap, tokens = cap, refill_rate = rate, last_refill = now\<rparr>"

text \<open>
  Modelled from the spec: \<^verbatim>\<open>TokenBucket.consume\<close>, missing from the source. "consume(n):
  refills tokens by elapsed\_seconds * refill\_rate (capped at capacity) since last\_refill,
  updates last\_refill to now, then: if tokens >= n, subtract n and return allowed=true;
  else return allowed=false and leave tokens unchanged (no partial consumption)."
\<close>

definition consume :: "TokenBucket \<Rightarrow> real \<Rightarrow> real \<Rightarrow> bool \<times> TokenBucket" where
  "consume b n now =
     (let elapsed_seconds = now - last_refill b;
          refilled = min (capacity b) (tokens b + elapsed_seconds * refill_rate b);
          b1 = b\<lparr>tokens := refilled, last_refill := now\<rparr>
      in if n \<le> tokens b1 then (True, b1\<lparr>tokens := tokens b1 - n\<rparr>) else (False, b1))"

datatype arith_error = ZeroDivisionError

text \<open>
  Modelled from the spec: \<^verbatim>\<open>TokenBucket.get_wait_time\<close>, missing from the source.
  "get\_wait\_time(n): if tokens >= n return 0; else return (n - tokens) / refill\_rate
  seconds". A Python float division by zero raises, so a refill rate of 0 is an error
  of the model and not HOL's \<open>x / 0 = 0\<close>.
\<close>

definition get_wait_time :: "TokenBucket \<Rightarrow> real \<Rightarrow> arith_error + real" where
  "get_wait_time b n =
     (if n \<le> tokens b then Inr 0
      else if refill_rate b = 0 then Inl ZeroDivisionError
      else Inr ((n - tokens b) / refill_rate b))"

section \<open>The rule-based predictor (backend/app/prediction\_service.py, backend/app/models.py)\<close>

text \<open>
  A title is a \<open>string\<close>; the characters of the model are single bytes, of which the
  ASCII letters have a case, the ASCII digits are digits and the ASCII white space is
  white space. Scores are Python floats, read as real numbers.
\<close>

subsection \<open>Strings\<close>

definition is_upper :: "char \<Rightarrow> bool" where
  "is_upper ch = (let n = (of_char ch :: nat) in 65 \<le> n \<and> n \<le> 90)"

definition is_digit :: "char \<Rightarrow> bool" where
  "is_digit ch = (let n = (of_char ch :: nat) in 48 \<le> n \<and> n \<le> 57)"

text \<open>\<^verbatim>\<open>str.isspace\<close> on ASCII: tab to carriage return, the four separators, the space.\<close>

definition is_space :: "char \<Rightarrow> bool" where
  "is_space ch = (let n = (of_char ch :: nat) in (9 \<le> n \<and> n \<le> 13) \<or> (28 \<le> n \<and> n \<le> 32))"

definition char_lower :: "char \<Rightarrow> char" where
  "char_lower ch = (if is_upper ch then char_of ((of_char ch :: nat) + 32) else ch)"

text \<open>\<^verbatim>\<open>title.lower()\<close>.\<close>

definition lower :: "string \<Rightarrow> string" where
  "lower title = map char_lower title"

text \<open>\<^verbatim>\<open>keyword in title_lower\<close>: the keyword occurs as a contiguous substring.\<close>

fun str_contains :: "string \<Rightarrow> string \<Rightarrow> bool" where
  "str_contains [] keyword = (keyword = [])"
| "str_contains (ch # cs) keyword = (prefix keyword (ch # cs) \<or> str_contains cs keyword)"

text \<open>\<^verbatim>\<open>title.split()\<close>: the maximal runs of characters that are not white space.\<close>

fun split_from :: "string \<Rightarrow> string \<Rightarrow> string list" where
  "split_from word [] = (if word = [] then [] else [word])"
| "split_from word (ch # cs) =
     (if is_space ch then (if word = [] then split_from [] cs else word # split_from [] cs)
      else split_from (word @ [ch]) cs)"

definition split :: "string \<Rightarrow> string list" where
  "split title = split_from [] title"

text \<open>\<^verbatim>\<open>v.strip()\<close>.\<close>

definition strip :: "string \<Rightarrow> string" where
  "strip v = rev (dropWhile is_space (rev (dropWhile is_space v)))"

text \<open>\<^verbatim>\<open>sep.join(parts)\<close>.\<close>

fun join :: "string \<Rightarrow> string list \<Rightarrow> string" where
  "join sep [] = []"
| "join sep [x] = x"
| "join sep (x # y # ys) = x @ sep @ join sep (y # ys)"

text \<open>\<^verbatim>\<open>re.search(r'\d+', title)\<close> finds a digit.\<close>

definition has_numbers :: "string \<Rightarrow> bool" where
  "has_numbers title = list_ex is_digit title"

text \<open>\<^verbatim>\<open>re.search(r'[A-Z]{2,}', title)\<close> finds two capital letters in a row.\<close>

fun has_caps :: "string \<Rightarrow> bool" where
  "has_caps (a # b # cs) = ((is_upper a \<and> is_upper b) \<or> has_caps (b # cs))"
| "has_caps cs = False"

subsection \<open>Rounding\<close>

text \<open>
  \<^verbatim>\<open>round(x, 1)\<close> rounds to one decimal place, a tie going to the even digit.
\<close>

definition round_half_even :: "real \<Rightarrow> int" where
  "round_half_even y =
     (let f = \<lfloor>y\<rfloor>; d = y - of_int f
      in if d < 1 / 2 then f else if 1 / 2 < d then f + 1 else if even f then f else f + 1)"

definition round1 :: "real \<Rightarrow> real" where
  "round1 x = of_int (round_half_even (x * 10)) / 10"

subsection \<open>The response model\<close>

record PredictionResponse =
  rating :: real
  confidence :: real
  explanation :: string

datatype model_error = ValidationError

text \<open>
  The constructor of the pydantic model: the bounds of the fields
  (\<^verbatim>\<open>ge=1.0, le=5.0\<close> and \<^verbatim>\<open>ge=0.0, le=100.0\<close>) are checked, then the field
  validators round both numbers to one decimal place and strip the explanation, which
  must not be empty or blank.
\<close>

definition PredictionResponse_init :: "real \<Rightarrow> real \<Rightarrow> string \<Rightarrow> model_error + PredictionResponse" where
  "PredictionResponse_init r c v =
     (if \<not> (1 \<le> r \<and> r \<le> 5) then Inl ValidationError
      else if \<not> (0 \<le> c \<and> c \<le> 100) then Inl ValidationError
      else if v = [] \<or> strip v = [] then Inl ValidationError
      else Inr \<lparr>rating = round1 r, confidence = round1 c, explanation = strip v\<rparr>)"

subsection \<open>The analysis of the title\<close>

definition positive_keywords :: "string list" where
  "positive_keywords =
     [''premium'', ''luxury'', ''professional'', ''high-quality'', ''deluxe'', ''advanced'',
      ''superior'', ''excellent'', ''top-rated'', ''bestseller'', ''award-winning'',
      ''certified'', ''authentic'', ''original'', ''branded'', ''flagship'']"

definition negative_keywords :: "string list" where
  "negative_keywords =
     [''cheap'', ''basic'', ''simple'', ''budget'', ''economy'', ''generic'',
      ''knockoff'', ''imitation'', ''replica'', ''used'', ''refurbished'']"

definition tech_keywords :: "string list" where
  "tech_keywords =
     [''wireless'', ''bluetooth'', ''smart'', ''digital'', ''hd'', ''4k'', ''led'',
      ''rechargeable'', ''waterproof'', ''durable'', ''ergonomic'', ''portable'']"

definition brand_indicators :: "string list" where
  "brand_indicators = [''apple'', ''samsung'', ''sony'', ''nike'', ''adidas'', ''canon'', ''nikon'']"

text \<open>\<^verbatim>\<open>sum(1 for keyword in keywords if keyword in title_lower)\<close>.\<close>

definition count_in :: "string list \<Rightarrow> string \<Rightarrow> nat" where
  "count_in keywords title_lower = length (filter (str_contains title_lower) keywords)"

record TitleAnalysis =
  title_length_score :: real
  positive_score :: real
  tech_score :: real
  brand_score :: real
  negative_penalty :: real
  pattern_bonus :: real
  word_count :: nat

definition analyze_title :: "string \<Rightarrow> TitleAnalysis" where
  "analyze_title title =
     (let title_lower = lower title;
          positive_count = count_in positive_keywords title_lower;
          negative_count = count_in negative_keywords title_lower;
          tech_count = count_in tech_keywords title_lower;
          brand_count = count_in brand_indicators title_lower;
          bonus = (1 / 10) * real ((if has_numbers title then 1 else 0) + (if has_caps title then 1 else 0))
      in \<lparr>title_length_score = min (real (length title) / 50) 1,
          positive_score = min (real positive_count * (3 / 10)) 1,
          tech_score = min (real tech_count * (2 / 10)) (8 / 10),
          brand_score = min (real brand_count * (4 / 10)) 1,
          negative_penalty = min (real negative_count * (4 / 10)) 1,
          pattern_bonus = bonus,
          word_count = length (split title)\<rparr>)"

subsection \<open>The analysis of the image\<close>

text \<open>
  Of a PIL image the predictor reads the size, the mode and the pixels of its
  conversion to greyscale (\<^verbatim>\<open>list(image.convert('L').getdata())\<close>, values 0 to 255).
  The conversion is the library's: \<open>luminance\<close> is its result, \<open>None\<close> when the
  library raises.
\<close>

record image =
  image_width :: nat
  image_height :: nat
  image_mode :: string
  luminance :: "nat list option"

record ImageAnalysis =
  resolution_score :: real
  aspect_score :: real
  brightness_score :: real
  contrast_score :: real

definition standard_ratios :: "real list" where
  "standard_ratios = [1, 4 / 3, 3 / 2, 16 / 9, 16 / 10]"

text \<open>The scores of the \<^verbatim>\<open>except\<close> branch: any exception of the analysis ends there.\<close>

definition analysis_failed :: ImageAnalysis where
  "analysis_failed =
     \<lparr>resolution_score = 5 / 10, aspect_score = 5 / 10, brightness_score = 5 / 10, contrast_score = 5 / 10\<rparr>"

definition analyze_image :: "image option \<Rightarrow> ImageAnalysis" where
  "analyze_image img =
     (case img of
        None \<Rightarrow>
          \<lparr>resolution_score = 4 / 10, aspect_score = 5 / 10, brightness_score = 5 / 10, contrast_score = 4 / 10\<rparr>
      | Some im \<Rightarrow>
          if image_height im = 0 then analysis_failed
          else
            (let aspect_ratio = real (image_width im) / real (image_height im);
                 total_pixels = image_width im * image_height im;
                 resolution = min (real total_pixels / (1000 * 1000)) 1;
                 aspect = max (5 / 10) (1 - min_list (map (\<lambda>ratio. \<bar>aspect_ratio - ratio\<bar>) standard_ratios))
             in if image_mode im = ''RGB'' then
                  (case luminance im of
                     None \<Rightarrow> analysis_failed
                   | Some pixels \<Rightarrow>
                       if pixels = [] then analysis_failed
                       else
                         (let avg_brightness = real (sum_list pixels) / real (length pixels);
                              brightness = 1 - \<bar>avg_brightness - 128\<bar> / 128;
                              pixel_variance =
                                sum_list (map (\<lambda>p. (real p - avg_brightness)\<^sup>2) (take 1000 pixels))
                                  / real (min 1000 (length pixels));
                              contrast = min (pixel_variance / 2000) 1
                          in \<lparr>resolution_score = resolution, aspect_score = aspect,
                              brightness_score = brightness, contrast_score = contrast\<rparr>))
                else \<lparr>resolution_score = resolution, aspect_score = aspect,
                      brightness_score = 7 / 10, contrast_score = 7 / 10\<rparr>))"

subsection \<open>The explanation\<close>

definition summary_of :: "real \<Rightarrow> string" where
  "summary_of r =
     (if 45 / 10 \<le> r then ''This product shows strong indicators of high customer satisfaction''
      else if 4 \<le> r then ''This product appears likely to receive positive customer ratings''
      else if 35 / 10 \<le> r then ''This product shows moderate appeal to customers''
      else if 3 \<le> r then ''This product has average market appeal''
      else ''This product may face challenges in customer satisfaction'')"

definition generate_explanation :: "TitleAnalysis \<Rightarrow> ImageAnalysis \<Rightarrow> real \<Rightarrow> string" where
  "generate_explanation title_analysis image_analysis r =
     (let explanations =
            (if 2 / 10 < positive_score title_analysis
             then [''The title includes premium quality indicators''] else [])
          @ (if 1 / 10 < tech_score title_analysis
             then [''Technical features mentioned suggest good functionality''] else [])
          @ (if 2 / 10 < brand_score title_analysis
             then [''Recognizable brand name adds credibility''] else [])
          @ (if 2 / 10 < negative_penalty title_analysis
             then [''Some keywords suggest budget positioning''] else [])
          @ (if 7 / 10 < resolution_score image_analysis
             then [''High-resolution image suggests professional presentation'']
             else if resolution_score image_analysis < 3 / 10
             then [''Low image resolution may impact perceived quality''] else [])
          @ (if 7 / 10 < brightness_score image_analysis
             then [''Well-lit product photo enhances appeal''] else []);
          summary = summary_of r
      in if explanations \<noteq> [] then join ''. '' explanations @ ''. '' @ summary
         else summary @ '' based on general product presentation'')"

subsection \<open>The prediction\<close>

text \<open>
  \<^verbatim>\<open>predict\<close> reads two things from outside: the image behind a URL
  (\<^verbatim>\<open>load_image_from_url\<close>, \<open>None\<close> when the download or the decoding fails) and
  the jitter \<^verbatim>\<open>random.uniform(-0.15, 0.15)\<close>. Both are arguments here.
\<close>

definition predict ::
  "(string \<Rightarrow> image option) \<Rightarrow> real \<Rightarrow> string \<Rightarrow> image option \<Rightarrow> string option
     \<Rightarrow> model_error + PredictionResponse" where
  "predict load_image_from_url jitter title img image_url =
     (let img1 = (case (img, image_url) of
                    (None, Some url) \<Rightarrow> if url \<noteq> [] then load_image_from_url url else None
                  | _ \<Rightarrow> img);
          title_analysis = analyze_title title;
          image_analysis = analyze_image img1;
          base_rating = 3;
          title_score =
            title_length_score title_analysis * (15 / 100)
            + positive_score title_analysis * (35 / 100)
            + tech_score title_analysis * (25 / 100)
            + brand_score title_analysis * (25 / 100)
            + pattern_bonus title_analysis * (15 / 100)
            - negative_penalty title_analysis * (4 / 10);
          image_score =
            resolution_score image_analysis * (3 / 10)
            + aspect_score image_analysis * (2 / 10)
            + brightness_score image_analysis * (25 / 100)
            + contrast_score image_analysis * (25 / 100);
          combined_score = title_score * (4 / 10) + image_score * (6 / 10);
          rating_adjustment = combined_score * (25 / 10);
          final_rating = max 1 (min 5 (base_rating + rating_adjustment + jitter));
          title_indicators =
            positive_score title_analysis + tech_score title_analysis
            + brand_score title_analysis + pattern_bonus title_analysis;
          image_indicators =
            (resolution_score image_analysis + aspect_score image_analysis
             + brightness_score image_analysis + contrast_score image_analysis) / 4;
          conf = max 60 (min 95 ((title_indicators * (4 / 10) + image_indicators * (6 / 10)) * 100));
          explanation_text = generate_explanation title_analysis image_analysis final_rating
      in PredictionResponse_init (round1 final_rating) (round1 conf) explanation_text)"

text \<open>
  \<^verbatim>\<open>EnsemblePredictor.predict\<close> ignores its mode and calls the rule-based predictor.
\<close>

definition EnsemblePredictor_predict ::
  "(string \<Rightarrow> image option) \<Rightarrow> real \<Rightarrow> string \<Rightarrow> image option \<Rightarrow> string option \<Rightarrow> string
     \<Rightarrow> model_error + PredictionResponse" where
  "EnsemblePredictor_predict load_image_from_url jitter title img image_url mode =
     predict load_image_from_url jitter title img image_url"

subsection \<open>The history invariant\<close>

text \<open>
  The data model's invariant of the store, relative to a clock reading \<open>b\<close>: every
  stored history is ascending and holds no timestamp later than \<open>b\<close>.
\<close>

definition hist_inv :: "real \<Rightarrow> SimpleRateLimiter \<Rightarrow> bool" where
  "hist_inv b s = (\<forall>c h. requests s c = Some h \<longrightarrow> sorted h \<and> (\<forall>t\<in>set h. t \<le> b))"

section \<open>Properties of the rate limiter\<close>

lemma clean_old_dropWhile: "clean_old m h = dropWhile (\<lambda>t. t < m) h"
  by (induction h) auto

lemma clean_old_split: "h = takeWhile (\<lambda>t. t < m) h @ clean_old m h"
  by (simp add: clean_old_dropWhile)

lemma clean_old_sorted: "sorted h \<Longrightarrow> sorted (clean_old m h)"
  by (simp add: clean_old_dropWhile sorted_wrt_dropWhile)

lemma clean_old_subset: "set (clean_old m h) \<subseteq> set h"
  by (simp add: clean_old_dropWhile set_dropWhileD subsetI)

lemma clean_old_window: "sorted h \<Longrightarrow> t \<in> set (clean_old m h) \<Longrightarrow> m \<le> t"
proof (induction h)
  case Nil
  then show ?case by simp
next
  case (Cons a h)
  show ?case
  proof (cases "a < m")
    case True
    with Cons show ?thesis by simp
  next
    case False
    with Cons.prems show ?thesis by auto
  qed
qed

lemma clean_old_filter: "sorted h \<Longrightarrow> clean_old m h = filter (\<lambda>t. m \<le> t) h"
proof (induction h)
  case Nil
  then show ?case by simp
next
  case (Cons a h)
  show ?case
  proof (cases "a < m")
    case True
    with Cons show ?thesis by simp
  next
    case False
    with Cons.prems have "\<forall>t\<in>set (a # h). m \<le> t" by auto
    then have "filter (\<lambda>t. m \<le> t) (a # h) = a # h"
      by (simp only: filter_True)
    with False show ?thesis by simp
  qed
qed

lemma clean_old_length_ge: "length (filter (\<lambda>t. m \<le> t) h) \<le> length (clean_old m h)"
proof (induction h)
  case Nil
  then show ?case by simp
next
  case (Cons a h)
  show ?case
  proof (cases "a < m")
    case True
    with Cons show ?thesis by simp
  next
    case False
    have "length (filter (\<lambda>t. m \<le> t) (a # h)) \<le> length (a # h)"
      by (rule length_filter_le)
    with False show ?thesis by simp
  qed
qed

lemma getitem_upd_same [simp]: "getitem (d(c \<mapsto> q)) c = q"
  by (simp add: getitem_def)

lemma getitem_upd_other [simp]: "a \<noteq> c \<Longrightarrow> getitem (d(a \<mapsto> q)) c = getitem d c"
  by (simp add: getitem_def)

lemma getitem_clean [simp]:
  "getitem (requests (clean_old_requests s c now)) c = clean_old (now - 60) (getitem (requests s) c)"
  by (simp add: clean_old_requests_def Let_def getitem_def)

lemma rpm_clean [simp]:
  "requests_per_minute (clean_old_requests s c now) = requests_per_minute s"
  by (simp add: clean_old_requests_def Let_def)

lemma is_allowed_history:
  "getitem (requests (snd (is_allowed s c now))) c =
     clean_old (now - 60) (getitem (requests s) c) @ (if fst (fst (is_allowed s c now)) then [now] else [])"
  by (simp add: is_allowed_def Let_def)

lemma is_allowed_decision:
  "fst (fst (is_allowed s c now)) \<longleftrightarrow>
     int (length (clean_old (now - 60) (getitem (requests s) c))) < requests_per_minute s"
  by (simp add: is_allowed_def Let_def)

lemma is_allowed_other:
  "a \<noteq> b \<Longrightarrow> requests (snd (is_allowed s a now)) b = requests s b"
  by (simp add: is_allowed_def Let_def clean_old_requests_def)

lemma get_reset_time_requests:
  "requests (snd (get_reset_time s c now)) = (requests s)(c \<mapsto> getitem (requests s) c)"
  by (simp add: get_reset_time_def Let_def split: list.splits)

lemma get_reset_time_rpm [simp]:
  "requests_per_minute (snd (get_reset_time s c now)) = requests_per_minute s"
  by (simp add: get_reset_time_def Let_def split: list.splits)

lemma is_allowed_rpm [simp]:
  "requests_per_minute (snd (is_allowed s c now)) = requests_per_minute s"
  by (simp add: is_allowed_def Let_def)

lemma hist_inv_getitem: "hist_inv b s \<Longrightarrow> sorted (getitem (requests s) c) \<and> (\<forall>t\<in>set (getitem (requests s) c). t \<le> b)"
  by (auto simp: hist_inv_def getitem_def split: option.splits)

lemma hist_inv_mono: "hist_inv b s \<Longrightarrow> b \<le> b' \<Longrightarrow> hist_inv b' s"
  unfolding hist_inv_def by fastforce

lemma hist_inv_init: "hist_inv b (SimpleRateLimiter_init rpm)"
  by (simp add: hist_inv_def SimpleRateLimiter_init_def)

lemma hist_inv_clean: 
  assumes "hist_inv b s"
  shows "hist_inv b (clean_old_requests s c now)"
proof -
  from assms have g: "sorted (getitem (requests s) c)" "\<forall>t\<in>set (getitem (requests s) c). t \<le> b"
    using hist_inv_getitem by blast+
  have "sorted (clean_old (now - 60) (getitem (requests s) c))"
    using g(1) by (rule clean_old_sorted)
  moreover have "\<forall>t\<in>set (clean_old (now - 60) (getitem (requests s) c)). t \<le> b"
    using g(2) clean_old_subset by blast
  ultimately show ?thesis
    using assms by (auto simp: hist_inv_def clean_old_requests_def Let_def)
qed

lemma hist_inv_is_allowed:
  assumes "hist_inv now s"
  shows "hist_inv now (snd (is_allowed s c now))"
proof -
  let ?s1 = "clean_old_requests s c now"
  have i1: "hist_inv now ?s1" using assms by (rule hist_inv_clean)
  then have g: "sorted (getitem (requests ?s1) c)" "\<forall>t\<in>set (getitem (requests ?s1) c). t \<le> now"
    using hist_inv_getitem by blast+
  then have "sorted (getitem (requests ?s1) c @ [now])"
    by (simp add: sorted_append)
  with g(2) i1 show ?thesis
    by (auto simp: is_allowed_def Let_def hist_inv_def simp del: getitem_clean)
qed

lemma hist_inv_get_reset_time:
  assumes "hist_inv b s"
  shows "hist_inv b (snd (get_reset_time s c now))"
  using assms hist_inv_getitem[OF assms, of c]
  by (auto simp: get_reset_time_requests hist_inv_def)

lemma hist_inv_step: "hist_inv (call_time x) s \<Longrightarrow> hist_inv (call_time x) (step s x)"
  by (cases x) (simp_all add: hist_inv_is_allowed hist_inv_get_reset_time)

lemma run_snoc: "run s (cs @ [x]) = step (run s cs) x"
  by (simp add: run_def)

lemma hist_inv_run:
  "sorted (map call_time cs) \<Longrightarrow> \<forall>t\<in>set (map call_time cs). t \<le> b \<Longrightarrow>
   hist_inv b (run (SimpleRateLimiter_init rpm) cs)"
proof (induction cs arbitrary: b rule: rev_induct)
  case Nil
  then show ?case by (simp add: run_def hist_inv_init)
next
  case (snoc x cs)
  from snoc.prems(1) have s: "sorted (map call_time cs)" and le: "\<forall>t\<in>set (map call_time cs). t \<le> call_time x"
    by (auto simp: sorted_append)
  from snoc.IH[OF s le] have "hist_inv (call_time x) (run (SimpleRateLimiter_init rpm) cs)" .
  then have "hist_inv (call_time x) (run (SimpleRateLimiter_init rpm) (cs @ [x]))"
    by (simp add: run_snoc hist_inv_step)
  moreover from snoc.prems(2) have "call_time x \<le> b" by simp
  ultimately show ?case by (rule hist_inv_mono)
qed

lemma run_rpm [simp]: "requests_per_minute (run s cs) = requests_per_minute s"
  by (induction cs rule: rev_induct) (simp_all add: run_def, case_tac x, simp_all)



lemma clean_old_keep: "\<forall>t\<in>set h. m \<le> t \<Longrightarrow> clean_old m h = h"
  by (cases h) auto

lemma clean_old_drop_all: "\<forall>t\<in>set h. t < m \<Longrightarrow> clean_old m h = []"
  by (simp add: clean_old_dropWhile)

lemma is_allowed_seq_rapid:
  assumes "\<forall>t\<in>set (getitem (requests s) c) \<union> set ts. b - 60 \<le> t \<and> t \<le> b"
  shows "fst (is_allowed_seq s c ts) =
     map (\<lambda>i. if int (length (getitem (requests s) c) + i) < requests_per_minute s
               then (True, requests_per_minute s - int (length (getitem (requests s) c) + i) - 1)
               else (False, 0)) [0..<length ts]"
  using assms
proof (induction ts arbitrary: s)
  case Nil
  then show ?case by simp
next
  case (Cons t ts)
  let ?h = "getitem (requests s) c"
  let ?s1 = "snd (is_allowed s c t)"
  let ?h1 = "getitem (requests ?s1) c"
  from Cons.prems have tb: "t \<le> b" by simp
  have "\<forall>x\<in>set ?h. t - 60 \<le> x"
  proof
    fix x assume "x \<in> set ?h"
    with Cons.prems have "b - 60 \<le> x" by simp
    with tb show "t - 60 \<le> x" by linarith
  qed
  then have keep: "clean_old (t - 60) ?h = ?h" by (rule clean_old_keep)
  have h1: "?h1 = ?h @ (if fst (fst (is_allowed s c t)) then [t] else [])"
    by (simp add: is_allowed_history keep)
  have dec: "fst (fst (is_allowed s c t)) \<longleftrightarrow> int (length ?h) < requests_per_minute s"
    by (simp add: is_allowed_decision keep)
  have res: "fst (is_allowed s c t) =
      (if int (length ?h) < requests_per_minute s
       then (True, requests_per_minute s - int (length ?h) - 1) else (False, 0))"
    by (simp add: is_allowed_def Let_def keep)
  from Cons.prems h1 have "\<forall>x\<in>set ?h1 \<union> set ts. b - 60 \<le> x \<and> x \<le> b" by auto
  from Cons.IH[OF this] have ih: "fst (is_allowed_seq ?s1 c ts) =
     map (\<lambda>i. if int (length ?h1 + i) < requests_per_minute s
               then (True, requests_per_minute s - int (length ?h1 + i) - 1)
               else (False, 0)) [0..<length ts]" by simp
  have shift: "map (\<lambda>i. if int (length ?h1 + i) < requests_per_minute s
               then (True, requests_per_minute s - int (length ?h1 + i) - 1)
               else (False, 0)) [0..<length ts]
     = map (\<lambda>i. if int (length ?h + Suc i) < requests_per_minute s
               then (True, requests_per_minute s - int (length ?h + Suc i) - 1)
               else (False, 0)) [0..<length ts]"
    using h1 dec by (cases "fst (fst (is_allowed s c t))") auto
  have "fst (is_allowed_seq s c (t # ts)) = fst (is_allowed s c t) # fst (is_allowed_seq ?s1 c ts)"
    by (simp add: split_beta Let_def)
  also have "\<dots> = fst (is_allowed s c t) # map (\<lambda>i. if int (length ?h + Suc i) < requests_per_minute s
               then (True, requests_per_minute s - int (length ?h + Suc i) - 1)
               else (False, 0)) [0..<length ts]"
    using ih shift by simp
  finally show ?case
    by (simp add: res upt_conv_Cons map_Suc_upt[symmetric] del: upt_Suc)
qed

lemma sorted_le_last: "sorted (ts :: real list) \<Longrightarrow> t \<in> set ts \<Longrightarrow> t \<le> last ts"
  by (induction ts) auto

lemma is_allowed_seq_fresh:
  assumes "sorted ts" "\<forall>t\<in>set ts. last ts - 60 \<le> t"
  shows "fst (is_allowed_seq (SimpleRateLimiter_init rpm) c ts) =
     map (\<lambda>i. if int i < rpm then (True, rpm - int i - 1) else (False, 0)) [0..<length ts]"
proof (cases "ts = []")
  case True
  then show ?thesis by simp
next
  case False
  from assms(1) False have "\<forall>t\<in>set ts. t \<le> last ts"
    using sorted_le_last by blast
  with assms(2) have "\<forall>t\<in>set (getitem (requests (SimpleRateLimiter_init rpm)) c) \<union> set ts.
      last ts - 60 \<le> t \<and> t \<le> last ts"
    by (simp add: SimpleRateLimiter_init_def getitem_def)
  from is_allowed_seq_rapid[OF this] show ?thesis
    by (simp add: SimpleRateLimiter_init_def getitem_def)
qed


lemma is_allowed_fst_cong:
  "requests s b = requests s' b \<Longrightarrow> requests_per_minute s = requests_per_minute s' \<Longrightarrow>
   fst (is_allowed s b t) = fst (is_allowed s' b t)"
  by (simp add: is_allowed_def Let_def clean_old_requests_def getitem_def)

lemma get_reset_time_fst_cong:
  "requests s b = requests s' b \<Longrightarrow> fst (get_reset_time s b t) = fst (get_reset_time s' b t)"
  by (simp add: get_reset_time_def Let_def getitem_def split: list.splits)

section \<open>The claims about the rate limiter\<close>

text \<open>
  Claim C1 (corrected). The loop of \<^verbatim>\<open>is_allowed\<close> stops at the first timestamp
  that is not older than 60 seconds, so what the limit is compared with is the length of
  the deque after the loop, not the number of timestamps of the last 60 seconds. When
  the clock runs backwards the two differ: with a limit of 2 and calls at the clock
  readings 100, 50 and 155, the deque at the third call is [100, 50], the loop removes
  nothing since 100 is not older than 95, and the request is denied although only one
  timestamp lies in the last 60 seconds.
\<close>

theorem below_limit_denied_counterexample:
  "getitem (requests (run (SimpleRateLimiter_init 2) [IsAllowed ''c1'' 100, IsAllowed ''c1'' 50])) ''c1''
     = [100, 50]
   \<and> int (length (filter ((\<le>) (155 - 60))
         (getitem (requests (run (SimpleRateLimiter_init 2) [IsAllowed ''c1'' 100, IsAllowed ''c1'' 50])) ''c1'')))
       < 2
   \<and> \<not> fst (fst (is_allowed (run (SimpleRateLimiter_init 2) [IsAllowed ''c1'' 100, IsAllowed ''c1'' 50])
                ''c1'' 155))"
  by (simp add: run_def is_allowed_def clean_old_requests_def getitem_def SimpleRateLimiter_init_def Let_def)

text \<open>
  Claim C1 as amended. \<^verbatim>\<open>is_allowed\<close> compares with \<^verbatim>\<open>requests_per_minute\<close> by
  \<open>\<ge>\<close>: in any state of the store, a client whose timestamps of the last 60 seconds
  number the limit or more is denied. In every state the limiter reaches from its
  creation under a clock that never runs backwards, the request is allowed exactly when
  that number is strictly below the limit. In particular a client admitted
  \<^verbatim>\<open>requests_per_minute\<close> times at ascending clock readings within 60 seconds is
  denied next.
\<close>

theorem is_allowed_denies_at_limit:
  "(requests_per_minute s \<le> int (length (filter (\<lambda>t. now - 60 \<le> t) (getitem (requests s) c)))
      \<longrightarrow> \<not> fst (fst (is_allowed s c now)))
   \<and> (sorted (map call_time cs @ [now]) \<longrightarrow>
        (fst (fst (is_allowed (run (SimpleRateLimiter_init rpm) cs) c now)) \<longleftrightarrow>
         int (length (filter (\<lambda>t. now - 60 \<le> t)
                (getitem (requests (run (SimpleRateLimiter_init rpm) cs)) c))) < rpm))
   \<and> (sorted (ts @ [now]) \<and> int (length ts) = rpm \<and> (\<forall>t\<in>set ts. now - 60 \<le> t) \<longrightarrow>
        map fst (fst (is_allowed_seq (SimpleRateLimiter_init rpm) c (ts @ [now])))
          = replicate (length ts) True @ [False])"
proof (intro conjI impI)
  assume "requests_per_minute s \<le> int (length (filter (\<lambda>t. now - 60 \<le> t) (getitem (requests s) c)))"
  moreover have "length (filter (\<lambda>t. now - 60 \<le> t) (getitem (requests s) c))
      \<le> length (clean_old (now - 60) (getitem (requests s) c))"
    by (rule clean_old_length_ge)
  ultimately show "\<not> fst (fst (is_allowed s c now))"
    by (simp add: is_allowed_decision)
next
  assume a: "sorted (map call_time cs @ [now])"
  then have "sorted (map call_time cs)" "\<forall>t\<in>set (map call_time cs). t \<le> now"
    by (auto simp: sorted_append)
  then have "hist_inv now (run (SimpleRateLimiter_init rpm) cs)" by (rule hist_inv_run)
  then have "sorted (getitem (requests (run (SimpleRateLimiter_init rpm) cs)) c)"
    using hist_inv_getitem by blast
  then show "fst (fst (is_allowed (run (SimpleRateLimiter_init rpm) cs) c now)) \<longleftrightarrow>
         int (length (filter (\<lambda>t. now - 60 \<le> t)
                (getitem (requests (run (SimpleRateLimiter_init rpm) cs)) c))) < rpm"
    by (simp add: is_allowed_decision clean_old_filter SimpleRateLimiter_init_def)
next
  assume a: "sorted (ts @ [now]) \<and> int (length ts) = rpm \<and> (\<forall>t\<in>set ts. now - 60 \<le> t)"
  then have "\<forall>t\<in>set (ts @ [now]). last (ts @ [now]) - 60 \<le> t" by simp
  with a have "fst (is_allowed_seq (SimpleRateLimiter_init rpm) c (ts @ [now])) =
     map (\<lambda>i. if int i < rpm then (True, rpm - int i - 1) else (False, 0)) [0..<length (ts @ [now])]"
    using is_allowed_seq_fresh by blast
  then have "map fst (fst (is_allowed_seq (SimpleRateLimiter_init rpm) c (ts @ [now]))) =
     map (\<lambda>i. int i < rpm) [0..<length ts] @ [int (length ts) < rpm]"
    by (simp add: comp_def if_distrib[of fst] cong: if_cong)
  also have "map (\<lambda>i. int i < rpm) [0..<length ts] = replicate (length ts) True"
  proof -
    have "map (\<lambda>i. int i < rpm) [0..<length ts] = map (\<lambda>i. True) [0..<length ts]"
      using a by (intro map_cong) auto
    then show ?thesis by (simp add: map_replicate_trivial)
  qed
  finally show "map fst (fst (is_allowed_seq (SimpleRateLimiter_init rpm) c (ts @ [now])))
          = replicate (length ts) True @ [False]" using a by simp
qed

text \<open>
  The theorem at a limit of 2: after requests at 0 and 1 the request at 2 is denied, and
  the request at 61, when the first has left the window, is allowed.
\<close>

theorem is_allowed_denies_at_limit_witness:
  "\<not> fst (fst (is_allowed (run (SimpleRateLimiter_init 2) [IsAllowed ''a'' 0, IsAllowed ''a'' 1]) ''a'' 2))
   \<and> map fst (fst (is_allowed_seq (SimpleRateLimiter_init 2) ''a'' ([0, 1] @ [2]))) = [True, True, False]
   \<and> fst (fst (is_allowed (run (SimpleRateLimiter_init 2) [IsAllowed ''a'' 0, IsAllowed ''a'' 1]) ''a'' 61))"
  using is_allowed_denies_at_limit[where cs = "[IsAllowed ''a'' 0, IsAllowed ''a'' 1]" and now = 2 and rpm = 2 and c = "''a''"
        and ts = "[0, 1]" and s = "run (SimpleRateLimiter_init 2) [IsAllowed ''a'' 0, IsAllowed ''a'' 1]"]
    is_allowed_denies_at_limit[where cs = "[IsAllowed ''a'' 0, IsAllowed ''a'' 1]" and now = 61 and rpm = 2 and c = "''a''"
        and ts = "[]" and s = "SimpleRateLimiter_init 2"]
  by (simp add: run_def is_allowed_def clean_old_requests_def getitem_def SimpleRateLimiter_init_def Let_def)

text \<open>
  Claim C3. A call to \<^verbatim>\<open>is_allowed\<close> appends the clock reading to the client's
  history exactly when it returns allowed; a denied call leaves the history as the loop
  pruned it, and the loop removes only a prefix of timestamps older than 60 seconds.
\<close>

theorem is_allowed_appends_iff_allowed:
  "getitem (requests (snd (is_allowed s c now))) c =
     clean_old (now - 60) (getitem (requests s) c) @ (if fst (fst (is_allowed s c now)) then [now] else [])
   \<and> (fst (fst (is_allowed s c now)) \<longleftrightarrow>
        getitem (requests (snd (is_allowed s c now))) c = clean_old (now - 60) (getitem (requests s) c) @ [now])
   \<and> (\<not> fst (fst (is_allowed s c now)) \<longleftrightarrow>
        getitem (requests (snd (is_allowed s c now))) c = clean_old (now - 60) (getitem (requests s) c))
   \<and> getitem (requests s) c =
        takeWhile (\<lambda>t. t < now - 60) (getitem (requests s) c) @ clean_old (now - 60) (getitem (requests s) c)
   \<and> (\<forall>t\<in>set (takeWhile (\<lambda>t. t < now - 60) (getitem (requests s) c)). t < now - 60)"
proof (intro conjI)
  show h: "getitem (requests (snd (is_allowed s c now))) c =
     clean_old (now - 60) (getitem (requests s) c) @ (if fst (fst (is_allowed s c now)) then [now] else [])"
    by (rule is_allowed_history)
  show "fst (fst (is_allowed s c now)) \<longleftrightarrow>
        getitem (requests (snd (is_allowed s c now))) c = clean_old (now - 60) (getitem (requests s) c) @ [now]"
    by (simp add: h)
  show "\<not> fst (fst (is_allowed s c now)) \<longleftrightarrow>
        getitem (requests (snd (is_allowed s c now))) c = clean_old (now - 60) (getitem (requests s) c)"
    by (simp add: h)
  show "getitem (requests s) c =
        takeWhile (\<lambda>t. t < now - 60) (getitem (requests s) c) @ clean_old (now - 60) (getitem (requests s) c)"
    by (rule clean_old_split)
  show "\<forall>t\<in>set (takeWhile (\<lambda>t. t < now - 60) (getitem (requests s) c)). t < now - 60"
    by (auto dest: set_takeWhileD)
qed

theorem is_allowed_appends_iff_allowed_witness:
  "getitem (requests (snd (is_allowed \<lparr>requests_per_minute = 2, requests = [''a'' \<mapsto> [0, 50, 70]]\<rparr> ''a'' 100))) ''a'' = [50, 70]
   \<and> getitem (requests (snd (is_allowed \<lparr>requests_per_minute = 3, requests = [''a'' \<mapsto> [0, 50, 70]]\<rparr> ''a'' 100))) ''a'' = [50, 70, 100]"
  using is_allowed_appends_iff_allowed[of "\<lparr>requests_per_minute = 2, requests = [''a'' \<mapsto> [0, 50, 70]]\<rparr>" "''a''" 100]
    is_allowed_appends_iff_allowed[of "\<lparr>requests_per_minute = 3, requests = [''a'' \<mapsto> [0, 50, 70]]\<rparr>" "''a''" 100]
  by (simp add: is_allowed_decision getitem_def)

text \<open>
  Claim C7. For two distinct client identifiers, a call to \<^verbatim>\<open>is_allowed\<close> for the
  first leaves the stored history of the second unchanged, and with it the decision
  and remaining count of the second client's next request and its reset time.
\<close>

theorem is_allowed_isolates_clients:
  assumes "a \<noteq> b"
  shows "requests (snd (is_allowed s a now)) b = requests s b
   \<and> fst (is_allowed (snd (is_allowed s a now)) b later) = fst (is_allowed s b later)
   \<and> fst (get_reset_time (snd (is_allowed s a now)) b later) = fst (get_reset_time s b later)"
proof -
  have r: "requests (snd (is_allowed s a now)) b = requests s b"
    using assms by (rule is_allowed_other)
  moreover have "fst (is_allowed (snd (is_allowed s a now)) b later) = fst (is_allowed s b later)"
    using r by (intro is_allowed_fst_cong) simp_all
  moreover have "fst (get_reset_time (snd (is_allowed s a now)) b later) = fst (get_reset_time s b later)"
    using r by (rule get_reset_time_fst_cong)
  ultimately show ?thesis by blast
qed

theorem is_allowed_isolates_clients_witness:
  "''a'' \<noteq> ''b''
   \<and> requests (snd (is_allowed \<lparr>requests_per_minute = 1, requests = [''b'' \<mapsto> [5]]\<rparr> ''a'' 10)) ''b'' = Some [5]
   \<and> fst (is_allowed (snd (is_allowed \<lparr>requests_per_minute = 1, requests = [''b'' \<mapsto> [5]]\<rparr> ''a'' 10)) ''b'' 11) = (False, 0)"
  using is_allowed_isolates_clients[of "''a''" "''b''" "\<lparr>requests_per_minute = 1, requests = [''b'' \<mapsto> [5]]\<rparr>" 10 11]
  by (simp add: is_allowed_def clean_old_requests_def getitem_def Let_def)

text \<open>
  Claim C6. Under a clock that never runs backwards, after any call to
  \<^verbatim>\<open>is_allowed\<close> the client's history is ascending and every timestamp in it lies
  in the 60 seconds that end at the call; and after every operation every client's
  history is ascending.
\<close>

theorem history_ascending_within_window:
  assumes "sorted (map call_time cs @ [now])"
  shows "sorted (getitem (requests (snd (is_allowed (run (SimpleRateLimiter_init rpm) cs) c now))) c)
   \<and> (\<forall>t\<in>set (getitem (requests (snd (is_allowed (run (SimpleRateLimiter_init rpm) cs) c now))) c).
         now - 60 \<le> t \<and> t \<le> now)
   \<and> (\<forall>a. sorted (getitem (requests (run (SimpleRateLimiter_init rpm) cs)) a))"
proof -
  let ?s = "run (SimpleRateLimiter_init rpm) cs"
  let ?h = "getitem (requests ?s) c"
  from assms have "sorted (map call_time cs)" "\<forall>t\<in>set (map call_time cs). t \<le> now"
    by (auto simp: sorted_append)
  then have inv: "hist_inv now ?s" by (rule hist_inv_run)
  then have srt: "sorted ?h" and le: "\<forall>t\<in>set ?h. t \<le> now"
    using hist_inv_getitem by blast+
  have inv': "hist_inv now (snd (is_allowed ?s c now))"
    using inv by (rule hist_inv_is_allowed)
  have 1: "sorted (getitem (requests (snd (is_allowed ?s c now))) c)"
    using inv' hist_inv_getitem by blast
  have w: "\<forall>t\<in>set (clean_old (now - 60) ?h). now - 60 \<le> t \<and> t \<le> now"
    using clean_old_window[OF srt] clean_old_subset le by blast
  have 2: "\<forall>t\<in>set (getitem (requests (snd (is_allowed ?s c now))) c). now - 60 \<le> t \<and> t \<le> now"
    using w by (auto simp: is_allowed_history split: if_splits)
  have 3: "\<forall>a. sorted (getitem (requests ?s) a)"
    using inv hist_inv_getitem by blast
  from 1 2 3 show ?thesis by blast
qed

theorem history_ascending_within_window_witness:
  "sorted (map call_time [IsAllowed ''a'' 0, GetResetTime ''b'' 10, IsAllowed ''a'' 50] @ [100])
   \<and> getitem (requests (snd (is_allowed (run (SimpleRateLimiter_init 5)
          [IsAllowed ''a'' 0, GetResetTime ''b'' 10, IsAllowed ''a'' 50]) ''a'' 100))) ''a'' = [50, 100]
   \<and> sorted [50, 100 :: real]"
  using history_ascending_within_window[of "[IsAllowed ''a'' 0, GetResetTime ''b'' 10, IsAllowed ''a'' 50]" 100 5 "''a''"]
  by (simp add: run_def is_allowed_def get_reset_time_def clean_old_requests_def getitem_def
      SimpleRateLimiter_init_def Let_def)

text \<open>
  Claim C2 (corrected). \<^verbatim>\<open>SimpleRateLimiter\<close> is constructed from
  \<^verbatim>\<open>requests_per_minute\<close> alone: it has no burst limit, no hourly limit and reports
  no window. With \<^verbatim>\<open>requests_per_minute = 5\<close> three calls back to back are all
  allowed, where the claim expects the third to be denied.
\<close>

theorem no_burst_limit_counterexample:
  "map fst (fst (is_allowed_seq (SimpleRateLimiter_init 5) ''c1'' [1000, 1000 + 1 / 1000, 1000 + 2 / 1000]))
     = [True, True, True]
   \<and> map fst (fst (is_allowed_seq (SimpleRateLimiter_init 5) ''c1'' [1000, 1000 + 1 / 1000, 1000 + 2 / 1000]))
     \<noteq> [True, True, False]"
  by (simp add: is_allowed_def clean_old_requests_def getitem_def SimpleRateLimiter_init_def Let_def)

text \<open>
  Claim C2 as amended. A client calling a fresh limiter in rapid succession (ascending
  clock readings, all within 60 seconds) is allowed on its first
  \<^verbatim>\<open>requests_per_minute\<close> calls, with the remaining counts running down to 0, and
  denied with a remaining count of 0 on every call after them.
\<close>

theorem rapid_succession_allowed_up_to_limit:
  assumes "sorted ts" and "\<forall>t\<in>set ts. last ts - 60 \<le> t"
  shows "fst (is_allowed_seq (SimpleRateLimiter_init rpm) c ts) =
     map (\<lambda>i. if int i < rpm then (True, rpm - int i - 1) else (False, 0)) [0..<length ts]"
  using assms by (rule is_allowed_seq_fresh)

theorem rapid_succession_allowed_up_to_limit_witness:
  "sorted [1000, 1000 + 1 / 1000, 1000 + 2 / 1000 :: real]
   \<and> fst (is_allowed_seq (SimpleRateLimiter_init 5) ''c1'' [1000, 1000 + 1 / 1000, 1000 + 2 / 1000])
       = [(True, 4), (True, 3), (True, 2)]
   \<and> fst (is_allowed_seq (SimpleRateLimiter_init 2) ''c1'' [1000, 1000 + 1 / 1000, 1000 + 2 / 1000])
       = [(True, 1), (True, 0), (False, 0)]"
  using rapid_succession_allowed_up_to_limit[of "[1000, 1000 + 1 / 1000, 1000 + 2 / 1000]" 5 "''c1''"]
    rapid_succession_allowed_up_to_limit[of "[1000, 1000 + 1 / 1000, 1000 + 2 / 1000]" 2 "''c1''"]
  by (simp add: upt_conv_Cons del: upt_Suc)

text \<open>
  Claim C4 (corrected). \<^verbatim>\<open>get_reset_time\<close> returns
  \<^verbatim>\<open>int(client_requests[0] + 60)\<close>: the oldest timestamp plus 60 seconds cut down
  to an integer, a moment and not a wait. A client with limit 1 admitted at 1000.5 and
  denied at 1010 gets the reset time 1060, not 1060.5, and 1060 - 1010 = 50 is not the
  wait 60 - (1010 - 1000.5) rounded up, which is 51.
\<close>

theorem reset_time_counterexample:
  "\<not> fst (fst (is_allowed (snd (is_allowed (SimpleRateLimiter_init 1) ''c1'' (2001 / 2))) ''c1'' 1010))
   \<and> fst (get_reset_time (snd (is_allowed (snd (is_allowed (SimpleRateLimiter_init 1) ''c1'' (2001 / 2))) ''c1'' 1010))
        ''c1'' 1010) = 1060
   \<and> real_of_int (fst (get_reset_time
        (snd (is_allowed (snd (is_allowed (SimpleRateLimiter_init 1) ''c1'' (2001 / 2))) ''c1'' 1010))
        ''c1'' 1010)) \<noteq> 2001 / 2 + 60
   \<and> fst (get_reset_time (snd (is_allowed (snd (is_allowed (SimpleRateLimiter_init 1) ''c1'' (2001 / 2))) ''c1'' 1010))
        ''c1'' 1010) - 1010 \<noteq> \<lceil>max 0 (60 - (1010 - 2001 / 2 :: real))\<rceil>"
  by (simp add: is_allowed_def get_reset_time_def clean_old_requests_def getitem_def
      SimpleRateLimiter_init_def Let_def py_int_def)

text \<open>
  Claim C4 as amended. When a request is denied, the client's history is not empty,
  its first entry is the oldest timestamp still inside the 60-second window, and the
  reset time \<^verbatim>\<open>get_reset_time\<close> then returns is that timestamp plus 60 seconds
  rounded down to an integer: at most one second before the oldest entry leaves the
  window, never after it. For any client with a stored timestamp the reset time is the
  oldest stored timestamp plus 60, rounded down.
\<close>

theorem reset_time_is_floor_of_oldest_plus_60:
  "(requests s c = Some (oldest # rest) \<and> 0 \<le> oldest + 60 \<longrightarrow>
      fst (get_reset_time s c later) = \<lfloor>oldest + 60\<rfloor>)
   \<and> (sorted (getitem (requests s) c) \<and> 0 < requests_per_minute s \<and> 0 \<le> now
        \<and> \<not> fst (fst (is_allowed s c now)) \<longrightarrow>
      getitem (requests (snd (is_allowed s c now))) c \<noteq> []
      \<and> now - 60 \<le> hd (getitem (requests (snd (is_allowed s c now))) c)
      \<and> (\<forall>t\<in>set (getitem (requests (snd (is_allowed s c now))) c).
            hd (getitem (requests (snd (is_allowed s c now))) c) \<le> t)
      \<and> fst (get_reset_time (snd (is_allowed s c now)) c later)
          = \<lfloor>hd (getitem (requests (snd (is_allowed s c now))) c) + 60\<rfloor>
      \<and> real_of_int (fst (get_reset_time (snd (is_allowed s c now)) c later))
          \<le> hd (getitem (requests (snd (is_allowed s c now))) c) + 60
      \<and> hd (getitem (requests (snd (is_allowed s c now))) c) + 60
          < real_of_int (fst (get_reset_time (snd (is_allowed s c now)) c later)) + 1)"
proof (intro conjI impI)
  assume "requests s c = Some (oldest # rest) \<and> 0 \<le> oldest + 60"
  then show "fst (get_reset_time s c later) = \<lfloor>oldest + 60\<rfloor>"
    by (simp add: get_reset_time_def getitem_def Let_def py_int_def)
next
  let ?h = "getitem (requests (snd (is_allowed s c now))) c"
  assume a: "sorted (getitem (requests s) c) \<and> 0 < requests_per_minute s \<and> 0 \<le> now
        \<and> \<not> fst (fst (is_allowed s c now))"
  then have h: "?h = clean_old (now - 60) (getitem (requests s) c)"
    by (simp add: is_allowed_history)
  from a have "\<not> int (length (clean_old (now - 60) (getitem (requests s) c))) < requests_per_minute s"
    by (simp add: is_allowed_decision)
  with a have "0 < length (clean_old (now - 60) (getitem (requests s) c))" by linarith
  with h show ne: "?h \<noteq> []" by simp
  from a have srt: "sorted ?h" by (simp add: h clean_old_sorted)
  from ne have hdin: "hd ?h \<in> set ?h" by simp
  with a h show lo: "now - 60 \<le> hd ?h"
    using clean_old_window by metis
  from srt ne show "\<forall>t\<in>set ?h. hd ?h \<le> t"
    by (cases ?h) auto
  from ne obtain x xs where hx: "?h = x # xs" by (cases ?h) auto
  from lo a hx have "0 \<le> x + 60" by simp
  with hx show fl: "fst (get_reset_time (snd (is_allowed s c now)) c later) = \<lfloor>hd ?h + 60\<rfloor>"
    by (simp add: get_reset_time_def Let_def py_int_def)
  show "real_of_int (fst (get_reset_time (snd (is_allowed s c now)) c later)) \<le> hd ?h + 60"
    unfolding fl by (rule of_int_floor_le)
  show "hd ?h + 60 < real_of_int (fst (get_reset_time (snd (is_allowed s c now)) c later)) + 1"
    unfolding fl by linarith
qed

theorem reset_time_is_floor_of_oldest_plus_60_witness:
  "fst (get_reset_time \<lparr>requests_per_minute = 1, requests = [''c1'' \<mapsto> [2001 / 2]]\<rparr> ''c1'' 1010) = 1060
   \<and> \<not> fst (fst (is_allowed \<lparr>requests_per_minute = 1, requests = [''c1'' \<mapsto> [2001 / 2]]\<rparr> ''c1'' 1010))
   \<and> fst (get_reset_time (snd (is_allowed \<lparr>requests_per_minute = 1, requests = [''c1'' \<mapsto> [2001 / 2]]\<rparr> ''c1'' 1010))
        ''c1'' 1010) = 1060"
  using reset_time_is_floor_of_oldest_plus_60[of "\<lparr>requests_per_minute = 1, requests = [''c1'' \<mapsto> [2001 / 2]]\<rparr>"
      "''c1''" "2001 / 2" "[]" 1010 1010]
  by (simp add: is_allowed_def clean_old_requests_def getitem_def Let_def)

text \<open>
  Claim C5 (corrected). The limiter has no cleanup sweep: the only pruning is the loop
  at the start of \<^verbatim>\<open>is_allowed\<close>, it prunes the calling client's history alone,
  and it never deletes a key of the dictionary. A client whose only timestamp, 0, has
  expired at 4000 keeps its entry, with an empty history, after the loop.
\<close>

theorem no_entry_removal_counterexample:
  "requests (clean_old_requests (snd (is_allowed (SimpleRateLimiter_init 5) ''c1'' 0)) ''c1'' 4000) ''c1''
     = Some []
   \<and> requests (clean_old_requests (snd (is_allowed (SimpleRateLimiter_init 5) ''c1'' 0)) ''c1'' 4000) ''c1''
     \<noteq> None
   \<and> requests (snd (is_allowed (snd (is_allowed (SimpleRateLimiter_init 5) ''c1'' 0)) ''c1'' 4000)) ''c1''
     = Some [4000]"
  by (simp add: is_allowed_def clean_old_requests_def getitem_def SimpleRateLimiter_init_def Let_def)

text \<open>
  Claim C5 as amended. When every timestamp recorded for a client is older than 60
  seconds, the loop of the client's next \<^verbatim>\<open>is_allowed\<close> call empties its history
  and keeps the entry; the call then returns what it returns for a client never seen,
  and leaves the same store.
\<close>

theorem expired_client_treated_as_new:
  assumes "\<forall>t\<in>set (getitem (requests s) c). t < now - 60"
  shows "requests (clean_old_requests s c now) c = Some []
   \<and> is_allowed s c now = is_allowed (s\<lparr>requests := (requests s)(c := None)\<rparr>) c now"
proof -
  from assms have "clean_old (now - 60) (getitem (requests s) c) = []"
    by (rule clean_old_drop_all)
  then show ?thesis
    by (simp add: is_allowed_def clean_old_requests_def Let_def getitem_def)
qed

theorem expired_client_treated_as_new_witness:
  "requests (clean_old_requests \<lparr>requests_per_minute = 5, requests = [''c1'' \<mapsto> [0]]\<rparr> ''c1'' 4000) ''c1'' = Some []
   \<and> is_allowed \<lparr>requests_per_minute = 5, requests = [''c1'' \<mapsto> [0]]\<rparr> ''c1'' 4000
      = ((True, 4), \<lparr>requests_per_minute = 5, requests = [''c1'' \<mapsto> [4000]]\<rparr>)"
  using expired_client_treated_as_new[of "\<lparr>requests_per_minute = 5, requests = [''c1'' \<mapsto> [0]]\<rparr>" "''c1''" 4000]
  by (simp add: is_allowed_def clean_old_requests_def getitem_def Let_def)

section \<open>The claim about the token bucket\<close>

text \<open>
  Claim C9. On a fresh bucket of capacity \<open>C\<close> with a positive refill rate, read at a
  clock reading not before its creation, \<^verbatim>\<open>consume(n)\<close> succeeds for every
  \<open>n \<le> C\<close> and takes exactly \<open>n\<close> tokens; it fails for every \<open>n > C\<close> and leaves
  the tokens as they were; and after \<^verbatim>\<open>consume(C)\<close> has taken all tokens,
  \<^verbatim>\<open>get_wait_time(1)\<close> is \<open>1 / refill_rate\<close>.
\<close>

theorem fresh_bucket_consume:
  assumes "created \<le> now" and "0 < rate"
  shows "(n \<le> C \<longrightarrow>
            fst (consume (TokenBucket_init C rate created) n now)
            \<and> tokens (snd (consume (TokenBucket_init C rate created) n now)) = C - n)
   \<and> (C < n \<longrightarrow>
            \<not> fst (consume (TokenBucket_init C rate created) n now)
            \<and> tokens (snd (consume (TokenBucket_init C rate created) n now))
                = tokens (TokenBucket_init C rate created))
   \<and> tokens (snd (consume (TokenBucket_init C rate created) C now)) = 0
   \<and> get_wait_time (snd (consume (TokenBucket_init C rate created) C now)) 1 = Inr (1 / rate)"
proof -
  from assms have e: "0 \<le> (now - created) * rate" by simp
  show ?thesis
    using assms(2) e by (simp add: consume_def TokenBucket_init_def get_wait_time_def Let_def)
qed

theorem fresh_bucket_consume_witness:
  "(0::real) \<le> 1 \<and> (0::real) < 2
   \<and> fst (consume (TokenBucket_init 10 2 0) 10 1)
   \<and> \<not> fst (consume (TokenBucket_init 10 2 0) 11 1)
   \<and> tokens (snd (consume (TokenBucket_init 10 2 0) 11 1)) = 10
   \<and> get_wait_time (snd (consume (TokenBucket_init 10 2 0) 10 1)) 1 = Inr (1 / 2)"
  using fresh_bucket_consume[of 0 1 2 10 10] fresh_bucket_consume[of 0 1 2 11 10]
  by (simp add: TokenBucket_init_def)

section \<open>Properties of the predictor\<close>

lemma round_half_even_ge: "of_int k \<le> y \<Longrightarrow> k \<le> round_half_even y"
proof -
  assume "of_int k \<le> y"
  then have "k \<le> \<lfloor>y\<rfloor>" by (simp add: le_floor_iff)
  then show ?thesis by (simp add: round_half_even_def Let_def)
qed

lemma round_half_even_le: "y \<le> of_int k \<Longrightarrow> round_half_even y \<le> k"
proof -
  assume a: "y \<le> of_int k"
  then have f: "\<lfloor>y\<rfloor> \<le> k" by (simp add: floor_le_iff)
  have "y - of_int \<lfloor>y\<rfloor> \<noteq> 0 \<Longrightarrow> \<lfloor>y\<rfloor> + 1 \<le> k"
  proof -
    assume "y - of_int \<lfloor>y\<rfloor> \<noteq> 0"
    then have "of_int \<lfloor>y\<rfloor> < y" using of_int_floor_le[of y] by linarith
    with a have "of_int \<lfloor>y\<rfloor> < (of_int k :: real)" by linarith
    then show ?thesis by simp
  qed
  with f show ?thesis
    by (auto simp: round_half_even_def Let_def)
qed

lemma round1_bounds:
  assumes "of_int lo / 10 \<le> x" and "x \<le> of_int hi / 10"
  shows "of_int lo / 10 \<le> round1 x \<and> round1 x \<le> of_int hi / 10"
proof -
  from assms have "of_int lo \<le> x * 10" "x * 10 \<le> of_int hi" by simp_all
  then have "lo \<le> round_half_even (x * 10)" "round_half_even (x * 10) \<le> hi"
    by (simp_all add: round_half_even_ge round_half_even_le)
  then show ?thesis by (simp add: round1_def divide_le_cancel)
qed

lemma round1_rating: "1 \<le> x \<Longrightarrow> x \<le> 5 \<Longrightarrow> 1 \<le> round1 x \<and> round1 x \<le> 5"
  using round1_bounds[of 10 x 50] by simp

lemma round1_confidence: "60 \<le> x \<Longrightarrow> x \<le> 95 \<Longrightarrow> 60 \<le> round1 x \<and> round1 x \<le> 95"
  using round1_bounds[of 600 x 950] by simp

lemma dropWhile_keeps: "x \<in> set xs \<Longrightarrow> \<not> P x \<Longrightarrow> x \<in> set (dropWhile P xs)"
  by (induction xs) auto

lemma strip_not_blank: "ch \<in> set v \<Longrightarrow> \<not> is_space ch \<Longrightarrow> strip v \<noteq> []"
proof -
  assume a: "ch \<in> set v" "\<not> is_space ch"
  then have "ch \<in> set (rev (dropWhile is_space v))" by (simp add: dropWhile_keeps)
  with a(2) have "ch \<in> set (dropWhile is_space (rev (dropWhile is_space v)))" by (simp add: dropWhile_keeps)
  then show ?thesis
    unfolding strip_def by (cases "dropWhile is_space (rev (dropWhile is_space v))") simp_all
qed

lemma T_not_space: "\<not> is_space (CHR ''T'')"
  by (simp add: is_space_def)

lemma summary_has_T: "CHR ''T'' \<in> set (summary_of r)"
  by (simp add: summary_of_def)

lemma explanation_has_T: "CHR ''T'' \<in> set (generate_explanation ta ia r)"
  by (simp add: generate_explanation_def Let_def summary_has_T)

lemma PredictionResponse_init_ok:
  assumes "1 \<le> r" "r \<le> 5" "60 \<le> c" "c \<le> 95" "CHR ''T'' \<in> set v"
  shows "PredictionResponse_init (round1 r) (round1 c) v =
     Inr \<lparr>rating = round1 (round1 r), confidence = round1 (round1 c), explanation = strip v\<rparr>
   \<and> 1 \<le> round1 (round1 r) \<and> round1 (round1 r) \<le> 5
   \<and> 60 \<le> round1 (round1 c) \<and> round1 (round1 c) \<le> 95"
proof -
  from assms have r1: "1 \<le> round1 r \<and> round1 r \<le> 5" by (simp add: round1_rating)
  from assms have c1: "60 \<le> round1 c \<and> round1 c \<le> 95" by (simp add: round1_confidence)
  from assms(5) have v: "v \<noteq> []" "strip v \<noteq> []"
    using strip_not_blank T_not_space by auto
  from r1 have r2: "1 \<le> round1 (round1 r) \<and> round1 (round1 r) \<le> 5" by (simp add: round1_rating)
  from c1 have c2: "60 \<le> round1 (round1 c) \<and> round1 (round1 c) \<le> 95" by (simp add: round1_confidence)
  from r1 c1 v have "PredictionResponse_init (round1 r) (round1 c) v =
     Inr \<lparr>rating = round1 (round1 r), confidence = round1 (round1 c), explanation = strip v\<rparr>"
    by (simp add: PredictionResponse_init_def)
  with r2 c2 show ?thesis by blast
qed

lemma predict_ok:
  "\<exists>resp. predict load_image_from_url jitter title img image_url = Inr resp
     \<and> 1 \<le> rating resp \<and> rating resp \<le> 5 \<and> 60 \<le> confidence resp \<and> confidence resp \<le> 95"
proof -
  obtain r c v where p: "predict load_image_from_url jitter title img image_url
      = PredictionResponse_init (round1 (max 1 (min 5 r))) (round1 (max 60 (min 95 c))) v"
     and v: "CHR ''T'' \<in> set v"
    unfolding predict_def Let_def using explanation_has_T by blast
  have "1 \<le> max 1 (min 5 r)" "max 1 (min 5 r) \<le> 5" "60 \<le> max 60 (min 95 c)" "max 60 (min 95 c) \<le> 95"
    by simp_all
  from PredictionResponse_init_ok[OF this v] p show ?thesis by simp
qed

section \<open>The claims about the predictor\<close>

text \<open>
  Claim C8. For every title, every image or none, every image URL or none, whatever
  the download yields and every jitter in [-0.15, 0.15], the predictor returns a
  response, and its rating lies between 1 and 5. The same holds of the ensemble
  predictor, in every mode.
\<close>

theorem predicted_rating_between_1_and_5:
  assumes "- (15 / 100) \<le> jitter" and "jitter \<le> 15 / 100"
  shows "(\<exists>resp. predict load_image_from_url jitter title img image_url = Inr resp
            \<and> 1 \<le> rating resp \<and> rating resp \<le> 5)
   \<and> (\<exists>resp. EnsemblePredictor_predict load_image_from_url jitter title img image_url mode = Inr resp
            \<and> 1 \<le> rating resp \<and> rating resp \<le> 5)"
  using predict_ok[of load_image_from_url jitter title img image_url]
  by (auto simp: EnsemblePredictor_predict_def)

text \<open>
  The theorem at the title "Sony 4K TV" with no image and no jitter, where the
  rating is 3.9.
\<close>

theorem predicted_rating_between_1_and_5_witness:
  "- (15 / 100) \<le> (0::real) \<and> (0::real) \<le> 15 / 100
   \<and> (\<exists>resp. predict (\<lambda>url. None) 0 ''Sony 4K TV'' None None = Inr resp
            \<and> 1 \<le> rating resp \<and> rating resp \<le> 5)
   \<and> rating (projr (predict (\<lambda>url. None) 0 ''Sony 4K TV'' None None)) = 39 / 10"
proof -
  have e: "rating (projr (predict (\<lambda>url. None) 0 ''Sony 4K TV'' None None)) = 39 / 10"
    by code_simp
  from predicted_rating_between_1_and_5[of 0 "\<lambda>url. None" "''Sony 4K TV''" None None "''auto''"] e
  show ?thesis by simp
qed

text \<open>
  Claim C10. For every title, every image or none and every jitter, the predictor
  returns a response whose confidence lies between 60 and 95: not below 60 when
  nothing in the title or the image counts, not above 95 however much does.
\<close>

theorem predicted_confidence_between_60_and_95:
  "(\<exists>resp. predict load_image_from_url jitter title img image_url = Inr resp
            \<and> 60 \<le> confidence resp \<and> confidence resp \<le> 95)
   \<and> (\<exists>resp. EnsemblePredictor_predict load_image_from_url jitter title img image_url mode = Inr resp
            \<and> 60 \<le> confidence resp \<and> confidence resp \<le> 95)"
  using predict_ok[of load_image_from_url jitter title img image_url]
  by (auto simp: EnsemblePredictor_predict_def)

text \<open>
  The theorem at a title with no indicator and no image, where the confidence is the
  lower bound, and at a title with indicators and a square, well-lit image behind its
  URL, where it is the upper bound.
\<close>

theorem predicted_confidence_between_60_and_95_witness:
  "(\<exists>resp. predict (\<lambda>url. None) 0 ''plain thing'' None None = Inr resp
            \<and> 60 \<le> confidence resp \<and> confidence resp \<le> 95)
   \<and> confidence (projr (predict (\<lambda>url. None) 0 ''plain thing'' None None)) = 60
   \<and> confidence (projr (predict
         (\<lambda>url. Some \<lparr>image_width = 2, image_height = 2, image_mode = ''RGB'',
                         luminance = Some [0, 255, 128, 128]\<rparr>)
         (15 / 100) ''Premium Apple 4K HD'' None (Some ''http://x''))) = 95"
proof -
  have lo: "confidence (projr (predict (\<lambda>url. None) 0 ''plain thing'' None None)) = 60"
    by code_simp
  have hi: "confidence (projr (predict
         (\<lambda>url. Some \<lparr>image_width = 2, image_height = 2, image_mode = ''RGB'',
                         luminance = Some [0, 255, 128, 128]\<rparr>)
         (15 / 100) ''Premium Apple 4K HD'' None (Some ''http://x''))) = 95"
    by code_simp
  from predicted_confidence_between_60_and_95[of "\<lambda>url. None" 0 "''plain thing''" None None "''auto''"] lo hi
  show ?thesis by simp
qed

end
